theory Spec2Isabelle
  imports Main "HOL-Library.Word" "HOL-Library.Sublist"
begin

section \<open>The SettleInvoicing contract\<close>

text \<open>
  A shallow embedding of the Solidity contract \<open>SettleInvoicing\<close> (pragma \<open>^0.8.20\<close>):
  the storage of the contract, the two state-changing functions \<open>registerInvoice\<close> and
  \<open>payInvoice\<close>, and the view \<open>getInvoice\<close>.

  Solidity's \<open>address\<close> is a 160-bit word and \<open>uint256\<close> a 256-bit word. A mapping has a
  value at every key, the zero value where nothing was written, so \<open>invoices\<close> is a total
  function. A \<open>require\<close> that fails, a checked-arithmetic panic and a revert coming out of
  an external call all abort the call; the caller of a function of this model keeps the
  state it had when the result is \<open>Inl\<close>, which is what the EVM does when a call reverts.
\<close>

type_synonym address = "160 word"
type_synonym uint256 = "256 word"

record Invoice =
  freelancer :: address
  client :: address
  amount :: uint256
  dueDate :: uint256
  isPaid :: bool
  invoiceURI :: string

text \<open>The value every key of the mapping holds before it is written.\<close>

definition zero_invoice :: Invoice where
  "zero_invoice = \<lparr>freelancer = 0, client = 0, amount = 0, dueDate = 0,
                    isPaid = False, invoiceURI = []\<rparr>"

datatype event =
    InvoiceCreated uint256 address uint256
  | InvoicePaid uint256 address

text \<open>
  A call of \<open>transferFrom(sender, recipient, amount)\<close> that the contract makes on the
  token at \<open>token\<close>.
\<close>

record ledger_call =
  token :: address
  sender :: address
  recipient :: address
  units :: uint256

text \<open>
  The storage of the contract (\<open>invoices\<close>, \<open>invoiceCount\<close>) together with what the
  chain records of the calls that went through: the event log and the calls made on
  token ledgers. A call that reverts leaves no trace in any of the four.
\<close>

record state =
  invoices :: "uint256 \<Rightarrow> Invoice"
  invoiceCount :: uint256
  events :: "event list"
  ledgerCalls :: "ledger_call list"

definition initial_state :: state where
  "initial_state = \<lparr>invoices = (\<lambda>_. zero_invoice), invoiceCount = 0,
                     events = [], ledgerCalls = []\<rparr>"

text \<open>
  Why a call reverted: \<open>Error\<close> carries the reason string of a failed \<open>require\<close>,
  \<open>Panic\<close> the code of a compiler-inserted check (\<open>0x11\<close> is arithmetic overflow), and
  \<open>LedgerReverted\<close> stands for a revert inside the external \<open>transferFrom\<close> call, which
  Solidity passes on to the caller.
\<close>

datatype error =
    Error string
  | Panic nat
  | LedgerReverted

definition AlreadyPaid :: error where
  "AlreadyPaid = Error ''Invoice already paid''"

definition NotFound :: error where
  "NotFound = Error ''Invoice does not exist''"

definition TransferRejected :: error where
  "TransferRejected = Error ''USDC transfer failed. Check allowance.''"

subsection \<open>registerInvoice\<close>

text \<open>
  \<open>invoiceCount++\<close> is checked arithmetic in Solidity 0.8: at \<open>2^256 - 1\<close> it panics with
  code \<open>0x11\<close> instead of wrapping. Otherwise the function has no failing branch.
\<close>

definition registerInvoice ::
  "address \<Rightarrow> uint256 \<Rightarrow> uint256 \<Rightarrow> string \<Rightarrow> state \<Rightarrow> error + (uint256 \<times> state)" where
  "registerInvoice msg_sender amount' dueDate' uri s =
     (if invoiceCount s = - 1 then Inl (Panic 0x11)
      else
        let s1 = s\<lparr>invoiceCount := invoiceCount s + 1\<rparr>;
            s2 = s1\<lparr>invoices := (invoices s1)(invoiceCount s1 :=
                   \<lparr>freelancer = msg_sender, client = 0, amount = amount',
                    dueDate = dueDate', isPaid = False, invoiceURI = uri\<rparr>)\<rparr>;
            s3 = s2\<lparr>events := events s2 @ [InvoiceCreated (invoiceCount s2) msg_sender amount']\<rparr>
        in Inr (invoiceCount s3, s3))"

subsection \<open>The token ledger as seen from the contract\<close>

text \<open>
  \<open>payInvoice\<close> calls \<open>transferFrom\<close> on an address the caller supplies. The code behind
  that address is not part of the contract, so it is a parameter of the model: a
  \<open>callback\<close> says what this one call of \<open>transferFrom\<close> does as far as the contract can
  observe. It may call back into the contract any number of times before it returns
  (\<open>call list\<close>, each call with its own sender, and a nested \<open>payInvoice\<close> with the
  behaviour of its own ledger call), and it ends by returning a boolean or by reverting
  (an address without code reverts as well). A call back into the contract that reverts
  is undone and the ledger goes on, as after a caught failure.
\<close>

datatype outcome = Returns bool | Reverts

datatype callback = Callback "call list" outcome
  and call =
      Register address uint256 uint256 string
    | Pay address uint256 address callback

text \<open>The two \<open>require\<close>s at the head of \<open>payInvoice\<close>, in the order of the source.\<close>

definition pay_checks :: "uint256 \<Rightarrow> state \<Rightarrow> error option" where
  "pay_checks id' s =
     (let inv = invoices s id' in
      if isPaid inv then Some AlreadyPaid
      else if \<not> (0 < amount inv) then Some NotFound
      else None)"

text \<open>\<open>inv.isPaid = true; inv.client = msg.sender;\<close> on the storage record.\<close>

definition pay_update :: "address \<Rightarrow> uint256 \<Rightarrow> state \<Rightarrow> state" where
  "pay_update msg_sender id' s =
     s\<lparr>invoices := (invoices s)(id' := (invoices s id')\<lparr>isPaid := True, client := msg_sender\<rparr>)\<rparr>"

text \<open>
  The external call \<open>usdc.transferFrom(msg.sender, inv.freelancer, inv.amount)\<close>: its
  arguments are read from storage when the call is made.
\<close>

definition pay_call :: "address \<Rightarrow> address \<Rightarrow> uint256 \<Rightarrow> state \<Rightarrow> state" where
  "pay_call usdc msg_sender id' s =
     s\<lparr>ledgerCalls := ledgerCalls s @
        [\<lparr>token = usdc, sender = msg_sender, recipient = freelancer (invoices s id'),
          units = amount (invoices s id')\<rparr>]\<rparr>"

text \<open>The state in which the ledger's code starts to run.\<close>

definition callback_state :: "address \<Rightarrow> uint256 \<Rightarrow> address \<Rightarrow> state \<Rightarrow> state" where
  "callback_state msg_sender id' usdc s = pay_call usdc msg_sender id' (pay_update msg_sender id' s)"

subsection \<open>payInvoice\<close>

text \<open>
  \<open>run_calls\<close> performs a sequence of calls of the contract one after the other, each
  one committed when it returns and undone when it reverts. It is what the ledger's code
  does inside a callback, and also what the chain does with a sequence of transactions.
\<close>

fun payInvoice :: "address \<Rightarrow> uint256 \<Rightarrow> address \<Rightarrow> callback \<Rightarrow> state \<Rightarrow> error + state"
  and run_calls :: "call list \<Rightarrow> state \<Rightarrow> state" where
  "payInvoice msg_sender id' usdc (Callback cs out) s =
     (case pay_checks id' s of
        Some e \<Rightarrow> Inl e
      | None \<Rightarrow>
          let s' = run_calls cs (callback_state msg_sender id' usdc s) in
          (case out of
             Reverts \<Rightarrow> Inl LedgerReverted
           | Returns success \<Rightarrow>
               if \<not> success then Inl TransferRejected
               else Inr (s'\<lparr>events := events s' @ [InvoicePaid id' msg_sender]\<rparr>)))"
| "run_calls [] s = s"
| "run_calls (Register a amount' dueDate' uri # cs) s =
     run_calls cs
       (case registerInvoice a amount' dueDate' uri s of Inl _ \<Rightarrow> s | Inr (_, s') \<Rightarrow> s')"
| "run_calls (Pay a id' usdc cb # cs) s =
     run_calls cs (case payInvoice a id' usdc cb s of Inl _ \<Rightarrow> s | Inr s' \<Rightarrow> s')"

subsection \<open>getInvoice\<close>

text \<open>A \<open>view\<close> function: it returns the record and the state it was given.\<close>

definition getInvoice :: "uint256 \<Rightarrow> state \<Rightarrow> Invoice \<times> state" where
  "getInvoice id' s = (invoices s id', s)"

subsection \<open>Executions\<close>

text \<open>The states the contract can be in after some sequence of transactions.\<close>

definition reachable :: "state \<Rightarrow> bool" where
  "reachable s = (\<exists>txs. s = run_calls txs initial_state)"

text \<open>
  Every call of \<open>payInvoice\<close> made while a sequence of calls runs, at any depth of
  nesting, in the order in which the calls begin: the identifier it was made for and
  how it ended (\<open>None\<close> when it returned).
\<close>

fun pay_attempts :: "call list \<Rightarrow> state \<Rightarrow> (uint256 \<times> error option) list" where
  "pay_attempts [] s = []"
| "pay_attempts (Register a amount' dueDate' uri # cs) s =
     pay_attempts cs (run_calls [Register a amount' dueDate' uri] s)"
| "pay_attempts (Pay a id' usdc (Callback cs' out) # cs) s =
     (id', case payInvoice a id' usdc (Callback cs' out) s of Inl e \<Rightarrow> Some e | Inr _ \<Rightarrow> None)
     # (if pay_checks id' s = None then pay_attempts cs' (callback_state a id' usdc s) else [])
     @ pay_attempts cs (run_calls [Pay a id' usdc (Callback cs' out)] s)"

text \<open>Reading the event log.\<close>

fun created_ids :: "event list \<Rightarrow> uint256 list" where
  "created_ids [] = []"
| "created_ids (InvoiceCreated i _ _ # es) = i # created_ids es"
| "created_ids (InvoicePaid _ _ # es) = created_ids es"

fun paid_count :: "uint256 \<Rightarrow> event list \<Rightarrow> nat" where
  "paid_count i [] = 0"
| "paid_count i (InvoiceCreated _ _ _ # es) = paid_count i es"
| "paid_count i (InvoicePaid j _ # es) = (if j = i then Suc (paid_count i es) else paid_count i es)"

subsection \<open>Invariants\<close>

text \<open>
  What holds of the storage in every state the contract passes through: the keys that
  were never assigned (0 and those above the counter) hold the zero record, and a paid
  invoice has a nonzero amount.
\<close>

definition well_formed :: "state \<Rightarrow> bool" where
  "well_formed s =
     ((\<forall>i. i = 0 \<or> invoiceCount s < i \<longrightarrow> invoices s i = zero_invoice) \<and>
      (\<forall>i. isPaid (invoices s i) \<longrightarrow> 0 < amount (invoices s i)))"

text \<open>
  How a later state \<open>s'\<close> relates to an earlier state \<open>s\<close>: the counter has not gone
  down, the invoices assigned in \<open>s\<close> keep the fields set at creation, a paid invoice
  keeps its whole record, and both logs have only grown.
\<close>

definition evolves :: "state \<Rightarrow> state \<Rightarrow> bool" where
  "evolves s s' =
     (invoiceCount s \<le> invoiceCount s' \<and>
      (\<forall>i. 0 < i \<and> i \<le> invoiceCount s \<longrightarrow>
         freelancer (invoices s' i) = freelancer (invoices s i) \<and>
         amount (invoices s' i) = amount (invoices s i) \<and>
         dueDate (invoices s' i) = dueDate (invoices s i) \<and>
         invoiceURI (invoices s' i) = invoiceURI (invoices s i) \<and>
         (isPaid (invoices s i) \<longrightarrow> invoices s' i = invoices s i)) \<and>
      prefix (events s) (events s') \<and>
      prefix (ledgerCalls s) (ledgerCalls s'))"

text \<open>
  The event log accounts for what happened between \<open>s\<close> and \<open>s'\<close>: the identifiers of
  the \<open>InvoiceCreated\<close> events added, read as numbers, are those above the counter of
  \<open>s\<close> up to the counter of \<open>s'\<close>, in order, and
  for every identifier the number of \<open>InvoicePaid\<close> events added is one when its paid
  flag went from false to true and zero otherwise.
\<close>

definition accounted :: "state \<Rightarrow> state \<Rightarrow> bool" where
  "accounted s s' =
     (map unat (created_ids (events s')) =
        map unat (created_ids (events s)) @
          [Suc (unat (invoiceCount s))..<Suc (unat (invoiceCount s'))] \<and>
      (\<forall>i. paid_count i (events s') + (if isPaid (invoices s i) then 1 else 0) =
           paid_count i (events s) + (if isPaid (invoices s' i) then 1 else 0)))"

text \<open>
  The state without the record of ledger calls: the storage of the contract and its
  event log.
\<close>

definition forget_calls :: "state \<Rightarrow> state" where
  "forget_calls s = s\<lparr>ledgerCalls := []\<rparr>"

section \<open>Properties\<close>

subsection \<open>Words and logs\<close>

lemma unat_inc: "(n::'a::len word) \<noteq> - 1 \<Longrightarrow> unat (n + 1) = Suc (unat n)"
  by (metis add.commute unatSuc max_word_wrap)

lemma word_inc_facts:
  assumes "(c::'a::len word) \<noteq> - 1"
  shows "c < c + 1" and "c \<le> c + 1" and "c + 1 \<noteq> 0" and "\<And>i. c + 1 < i \<Longrightarrow> c < i"
    and "\<And>i. i \<le> c \<Longrightarrow> i \<noteq> c + 1"
proof -
  show 1: "c < c + 1"
    using assms by (simp add: word_less_nat_alt unat_inc)
  then show "c \<le> c + 1" by simp
  show "c + 1 \<noteq> 0" using 1 by auto
  show "\<And>i. c + 1 < i \<Longrightarrow> c < i" using 1 by auto
  show "\<And>i. i \<le> c \<Longrightarrow> i \<noteq> c + 1" using 1 by auto
qed

lemma created_ids_append: "created_ids (xs @ ys) = created_ids xs @ created_ids ys"
  by (induction xs rule: created_ids.induct) simp_all

lemma paid_count_append: "paid_count i (xs @ ys) = paid_count i xs + paid_count i ys"
  by (induction i xs rule: paid_count.induct) simp_all

lemma upt_split: "a \<le> b \<Longrightarrow> b \<le> c \<Longrightarrow> [a..<b] @ [b..<c] = [a..<c]"
  by (metis le_Suc_ex upt_add_eq_append)

subsection \<open>The relations between states\<close>

lemma evolves_refl: "evolves s s"
  by (simp add: evolves_def)

lemma evolves_trans:
  assumes st: "evolves s t" and tu: "evolves t u"
  shows "evolves s u"
  unfolding evolves_def
proof (intro conjI allI impI)
  show "invoiceCount s \<le> invoiceCount u"
    using st tu by (auto simp: evolves_def)
  show "prefix (events s) (events u)"
    using st tu by (auto simp: evolves_def)
  show "prefix (ledgerCalls s) (ledgerCalls u)"
    using st tu by (auto simp: evolves_def)
next
  fix i assume i: "0 < i \<and> i \<le> invoiceCount s"
  then have i': "0 < i \<and> i \<le> invoiceCount t"
    using st by (auto simp: evolves_def)
  have a: "freelancer (invoices t i) = freelancer (invoices s i) \<and>
           amount (invoices t i) = amount (invoices s i) \<and>
           dueDate (invoices t i) = dueDate (invoices s i) \<and>
           invoiceURI (invoices t i) = invoiceURI (invoices s i) \<and>
           (isPaid (invoices s i) \<longrightarrow> invoices t i = invoices s i)"
    using st i unfolding evolves_def by blast
  have b: "freelancer (invoices u i) = freelancer (invoices t i) \<and>
           amount (invoices u i) = amount (invoices t i) \<and>
           dueDate (invoices u i) = dueDate (invoices t i) \<and>
           invoiceURI (invoices u i) = invoiceURI (invoices t i) \<and>
           (isPaid (invoices t i) \<longrightarrow> invoices u i = invoices t i)"
    using tu i' unfolding evolves_def by blast
  show "freelancer (invoices u i) = freelancer (invoices s i)" using a b by simp
  show "amount (invoices u i) = amount (invoices s i)" using a b by simp
  show "dueDate (invoices u i) = dueDate (invoices s i)" using a b by simp
  show "invoiceURI (invoices u i) = invoiceURI (invoices s i)" using a b by simp
  assume "isPaid (invoices s i)"
  then show "invoices u i = invoices s i" using a b by simp
qed

lemma accounted_refl: "accounted s s"
  by (simp add: accounted_def)

lemma accounted_trans:
  assumes st: "accounted s t" and tu: "accounted t u"
    and "invoiceCount s \<le> invoiceCount t" and "invoiceCount t \<le> invoiceCount u"
  shows "accounted s u"
  unfolding accounted_def
proof (intro conjI allI)
  have le: "Suc (unat (invoiceCount s)) \<le> Suc (unat (invoiceCount t))"
    "Suc (unat (invoiceCount t)) \<le> Suc (unat (invoiceCount u))"
    using assms(3,4) by (simp_all add: word_le_nat_alt)
  have "map unat (created_ids (events u)) = map unat (created_ids (events s)) @
      ([Suc (unat (invoiceCount s))..<Suc (unat (invoiceCount t))] @
       [Suc (unat (invoiceCount t))..<Suc (unat (invoiceCount u))])"
    using st tu by (simp add: accounted_def)
  then show "map unat (created_ids (events u)) = map unat (created_ids (events s)) @
      [Suc (unat (invoiceCount s))..<Suc (unat (invoiceCount u))]"
    by (simp only: upt_split [OF le])
next
  fix i
  have 1: "paid_count i (events t) + (if isPaid (invoices s i) then 1 else 0) =
           paid_count i (events s) + (if isPaid (invoices t i) then 1 else 0)"
    using st unfolding accounted_def by blast
  have 2: "paid_count i (events u) + (if isPaid (invoices t i) then 1 else 0) =
           paid_count i (events t) + (if isPaid (invoices u i) then 1 else 0)"
    using tu unfolding accounted_def by blast
  show "paid_count i (events u) + (if isPaid (invoices s i) then 1 else 0) =
        paid_count i (events s) + (if isPaid (invoices u i) then 1 else 0)"
    using 1 2 by (simp split: if_splits)
qed

subsection \<open>Single steps\<close>

lemma assigned_id:
  assumes "well_formed s" and "0 < amount (invoices s i)"
  shows "0 < i \<and> i \<le> invoiceCount s"
proof -
  have "invoices s i \<noteq> zero_invoice"
    using assms(2) by (auto simp: zero_invoice_def)
  then have "\<not> (i = 0 \<or> invoiceCount s < i)"
    using assms(1) unfolding well_formed_def by blast
  then show ?thesis
    by (simp add: word_neq_0_conv not_less)
qed

lemma pay_checks_None:
  "pay_checks i s = None \<longleftrightarrow> \<not> isPaid (invoices s i) \<and> 0 < amount (invoices s i)"
  by (simp add: pay_checks_def Let_def)

lemma callback_state_simps:
  "invoices (callback_state a i t s) = (invoices s)(i := (invoices s i)\<lparr>isPaid := True, client := a\<rparr>)"
  "invoiceCount (callback_state a i t s) = invoiceCount s"
  "events (callback_state a i t s) = events s"
  "ledgerCalls (callback_state a i t s) = ledgerCalls s @
     [\<lparr>token = t, sender = a, recipient = freelancer (invoices s i), units = amount (invoices s i)\<rparr>]"
  by (simp_all add: callback_state_def pay_call_def pay_update_def)

lemma callback_state_wf:
  assumes "well_formed s" and "pay_checks i s = None"
  shows "well_formed (callback_state a i t s)"
proof -
  have pos: "0 < amount (invoices s i)"
    using assms(2) by (simp add: pay_checks_None)
  have rng: "0 < i \<and> i \<le> invoiceCount s"
    using assigned_id [OF assms(1) pos] .
  have 1: "\<And>j. j = 0 \<or> invoiceCount s < j \<Longrightarrow> j \<noteq> i"
    using rng by auto
  show ?thesis
    using assms(1) pos 1 unfolding well_formed_def
    by (simp add: callback_state_simps)
qed

lemma register_result:
  assumes "registerInvoice a m d u s = Inr (n, s')"
  shows "invoiceCount s \<noteq> - 1"
    and "n = invoiceCount s + 1"
    and "s' = s\<lparr>invoiceCount := n,
                 invoices := (invoices s)(n := \<lparr>freelancer = a, client = 0, amount = m,
                    dueDate = d, isPaid = False, invoiceURI = u\<rparr>),
                 events := events s @ [InvoiceCreated n a m]\<rparr>"
  using assms by (auto simp: registerInvoice_def Let_def split: if_splits)

lemma register_step:
  assumes wf: "well_formed s" and r: "registerInvoice a m d u s = Inr (n, s')"
  shows "well_formed s'" and "evolves s s'" and "accounted s s'"
proof -
  note res = register_result [OF r]
  note w = word_inc_facts [OF res(1)]
  have fresh: "invoices s n = zero_invoice"
    using wf w(1) res(2) unfolding well_formed_def by blast
  show "well_formed s'"
    using wf w unfolding well_formed_def res(3) res(2)
    by auto
  show "evolves s s'"
    using w unfolding evolves_def res(3) res(2)
    by auto
  have ids: "[Suc (unat (invoiceCount s))..<Suc (unat (invoiceCount s'))] = [unat n]"
    unfolding res(3) res(2) by (simp add: unat_inc [OF res(1)])
  show "accounted s s'"
    unfolding accounted_def ids
    using fresh unfolding res(3)
    by (auto simp: created_ids_append paid_count_append zero_invoice_def)
qed

lemma pay_finish:
  assumes wf: "well_formed s" and chk: "pay_checks i s = None"
    and wf2: "well_formed s2"
    and ev: "evolves (callback_state a i t s) s2"
    and ac: "accounted (callback_state a i t s) s2"
  defines "s3 \<equiv> s2\<lparr>events := events s2 @ [InvoicePaid i a]\<rparr>"
  shows "well_formed s3" and "evolves s s3" and "accounted s s3"
proof -
  have unpaid: "\<not> isPaid (invoices s i)" and pos: "0 < amount (invoices s i)"
    using chk by (simp_all add: pay_checks_None)
  have rng: "0 < i \<and> i \<le> invoiceCount s"
    using assigned_id [OF wf pos] .
  have kept: "invoices s2 i = (invoices s i)\<lparr>isPaid := True, client := a\<rparr>"
    using ev rng unfolding evolves_def by (simp add: callback_state_simps)
  show "well_formed s3"
    using wf2 by (simp add: well_formed_def s3_def)
  show "evolves s s3"
    unfolding evolves_def
  proof (intro conjI allI impI)
    show "invoiceCount s \<le> invoiceCount s3"
      using ev by (simp add: evolves_def s3_def callback_state_simps)
    show "prefix (events s) (events s3)"
      using ev by (auto simp: evolves_def s3_def callback_state_simps prefix_def)
    show "prefix (ledgerCalls s) (ledgerCalls s3)"
      using ev by (auto simp: evolves_def s3_def callback_state_simps prefix_def)
  next
    fix j assume j: "0 < j \<and> j \<le> invoiceCount s"
    then have *: "freelancer (invoices s2 j) = freelancer (invoices (callback_state a i t s) j) \<and>
         amount (invoices s2 j) = amount (invoices (callback_state a i t s) j) \<and>
         dueDate (invoices s2 j) = dueDate (invoices (callback_state a i t s) j) \<and>
         invoiceURI (invoices s2 j) = invoiceURI (invoices (callback_state a i t s) j) \<and>
         (isPaid (invoices (callback_state a i t s) j) \<longrightarrow> invoices s2 j = invoices (callback_state a i t s) j)"
      using ev unfolding evolves_def by (simp add: callback_state_simps(2))
    show "freelancer (invoices s3 j) = freelancer (invoices s j)"
      using * by (simp add: s3_def callback_state_simps)
    show "amount (invoices s3 j) = amount (invoices s j)"
      using * by (simp add: s3_def callback_state_simps)
    show "dueDate (invoices s3 j) = dueDate (invoices s j)"
      using * by (simp add: s3_def callback_state_simps)
    show "invoiceURI (invoices s3 j) = invoiceURI (invoices s j)"
      using * by (simp add: s3_def callback_state_simps)
    assume "isPaid (invoices s j)"
    then show "invoices s3 j = invoices s j"
      using * unpaid by (auto simp: s3_def callback_state_simps)
  qed
  show "accounted s s3"
    unfolding accounted_def
  proof (intro conjI allI)
    show "map unat (created_ids (events s3)) = map unat (created_ids (events s)) @
        [Suc (unat (invoiceCount s))..<Suc (unat (invoiceCount s3))]"
      using ac by (simp add: accounted_def s3_def callback_state_simps created_ids_append)
  next
    fix j
    have "paid_count j (events s2) + (if isPaid (invoices (callback_state a i t s) j) then 1 else 0) =
           paid_count j (events s) + (if isPaid (invoices s2 j) then 1 else 0)"
      using ac unfolding accounted_def by (simp add: callback_state_simps(3))
    then show "paid_count j (events s3) + (if isPaid (invoices s j) then 1 else 0) =
           paid_count j (events s) + (if isPaid (invoices s3 j) then 1 else 0)"
      using unpaid kept
      by (cases "j = i") (simp_all add: s3_def callback_state_simps paid_count_append)
  qed
qed

subsection \<open>Every run keeps the invariants\<close>

lemma payInvoice_Inr:
  assumes "payInvoice a i t (Callback cs out) s = Inr s'"
  shows "pay_checks i s = None" and "out = Returns True"
    and "s' = (run_calls cs (callback_state a i t s))
               \<lparr>events := events (run_calls cs (callback_state a i t s)) @ [InvoicePaid i a]\<rparr>"
  using assms by (auto simp: Let_def split: option.splits outcome.splits if_splits)

lemma progress:
  "well_formed s \<Longrightarrow> payInvoice a i t cb s = Inr s' \<Longrightarrow>
     well_formed s' \<and> evolves s s' \<and> accounted s s'"
  "well_formed s \<Longrightarrow>
     well_formed (run_calls cs s) \<and> evolves s (run_calls cs s) \<and> accounted s (run_calls cs s)"
proof (induction a i t cb s and cs s arbitrary: s' rule: payInvoice_run_calls.induct)
  case (1 msg_sender id' usdc cs out s)
  note r = payInvoice_Inr [OF "1.prems"(2)]
  have ih: "well_formed (run_calls cs (callback_state msg_sender id' usdc s)) \<and>
      evolves (callback_state msg_sender id' usdc s) (run_calls cs (callback_state msg_sender id' usdc s)) \<and>
      accounted (callback_state msg_sender id' usdc s) (run_calls cs (callback_state msg_sender id' usdc s))"
    using "1.IH" [OF r(1) callback_state_wf [OF "1.prems"(1) r(1)]] .
  show ?case
    unfolding r(3)
    using pay_finish [OF "1.prems"(1) r(1), of "run_calls cs (callback_state msg_sender id' usdc s)" msg_sender usdc] ih
    by blast
next
  case (2 s)
  then show ?case by (simp add: evolves_refl accounted_refl)
next
  case (3 a amount' dueDate' uri cs s)
  define s1 where "s1 = (case registerInvoice a amount' dueDate' uri s of Inl x \<Rightarrow> s | Inr (xa, s') \<Rightarrow> s')"
  have step: "well_formed s1 \<and> evolves s s1 \<and> accounted s s1"
  proof (cases "registerInvoice a amount' dueDate' uri s")
    case (Inl e)
    then show ?thesis using "3.prems" by (simp add: s1_def evolves_refl accounted_refl)
  next
    case (Inr p)
    obtain n s' where p: "p = (n, s')" by (cases p)
    show ?thesis
      using register_step [OF "3.prems", of a amount' dueDate' uri n s'] Inr p
      by (simp add: s1_def)
  qed
  have rest: "well_formed (run_calls cs s1) \<and> evolves s1 (run_calls cs s1) \<and> accounted s1 (run_calls cs s1)"
    using "3.IH" step unfolding s1_def by blast
  have cnt: "invoiceCount s \<le> invoiceCount s1" "invoiceCount s1 \<le> invoiceCount (run_calls cs s1)"
    using step rest by (simp_all add: evolves_def)
  show ?case
    using step rest evolves_trans [of s s1 "run_calls cs s1"]
      accounted_trans [of s s1 "run_calls cs s1", OF _ _ cnt]
    by (simp add: s1_def)
next
  case (4 a id' usdc cb cs s)
  define s1 where "s1 = (case payInvoice a id' usdc cb s of Inl x \<Rightarrow> s | Inr s' \<Rightarrow> s')"
  have step: "well_formed s1 \<and> evolves s s1 \<and> accounted s s1"
  proof (cases "payInvoice a id' usdc cb s")
    case (Inl e)
    then show ?thesis using "4.prems" by (simp add: s1_def evolves_refl accounted_refl)
  next
    case (Inr s')
    then show ?thesis
      using "4.IH"(1) [OF "4.prems", of s'] by (simp add: s1_def)
  qed
  have rest: "well_formed (run_calls cs s1) \<and> evolves s1 (run_calls cs s1) \<and> accounted s1 (run_calls cs s1)"
    using "4.IH"(2) step unfolding s1_def by blast
  have cnt: "invoiceCount s \<le> invoiceCount s1" "invoiceCount s1 \<le> invoiceCount (run_calls cs s1)"
    using step rest by (simp_all add: evolves_def)
  show ?case
    using step rest evolves_trans [of s s1 "run_calls cs s1"]
      accounted_trans [of s s1 "run_calls cs s1", OF _ _ cnt]
    by (simp add: s1_def)
qed

subsection \<open>Reachable states\<close>

lemma well_formed_initial: "well_formed initial_state"
  by (simp add: well_formed_def initial_state_def zero_invoice_def)

lemma run_calls_append: "run_calls (xs @ ys) s = run_calls ys (run_calls xs s)"
proof (induction xs arbitrary: s)
  case Nil
  show ?case by simp
next
  case (Cons c xs)
  show ?case by (cases c) (simp_all add: Cons.IH)
qed

lemma reachable_initial: "reachable initial_state"
  unfolding reachable_def by (rule exI [of _ "[]"]) simp

lemma reachable_run: "reachable s \<Longrightarrow> reachable (run_calls cs s)"
  unfolding reachable_def by (metis run_calls_append)

lemma reachable_well_formed: "reachable s \<Longrightarrow> well_formed s"
  unfolding reachable_def using progress(2) [OF well_formed_initial] by blast

lemma reachable_accounted: "reachable s \<Longrightarrow> accounted initial_state s"
  unfolding reachable_def using progress(2) [OF well_formed_initial] by blast

lemmas evaluate = registerInvoice_def initial_state_def Let_def pay_checks_def
  callback_state_def pay_call_def pay_update_def getInvoice_def

subsection \<open>Paid invoices and the event log\<close>

lemma paid_kept:
  assumes "well_formed s" and "isPaid (invoices s i)"
  shows "invoices (run_calls cs s) i = invoices s i" and "well_formed (run_calls cs s)"
proof -
  have "0 < amount (invoices s i)"
    using assms unfolding well_formed_def by blast
  then have "0 < i \<and> i \<le> invoiceCount s"
    using assigned_id [OF assms(1)] by blast
  moreover have "evolves s (run_calls cs s)"
    using progress(2) [OF assms(1)] by blast
  ultimately show "invoices (run_calls cs s) i = invoices s i"
    using assms(2) unfolding evolves_def by blast
  show "well_formed (run_calls cs s)"
    using progress(2) [OF assms(1)] by blast
qed

lemma paid_blocks_attempts:
  "well_formed s \<Longrightarrow> isPaid (invoices s i) \<Longrightarrow>
     \<forall>(j, r) \<in> set (pay_attempts cs s). j = i \<longrightarrow> r = Some AlreadyPaid"
proof (induction cs s rule: pay_attempts.induct)
  case (1 s)
  show ?case by simp
next
  case (2 a amount' dueDate' uri cs s)
  have "well_formed (run_calls [Register a amount' dueDate' uri] s)"
    and "isPaid (invoices (run_calls [Register a amount' dueDate' uri] s) i)"
    using paid_kept [OF "2.prems", of "[Register a amount' dueDate' uri]"] "2.prems"(2)
    by simp_all
  then show ?case
    using "2.IH" by simp
next
  case (3 a id' usdc cs' out cs s)
  have hd: "id' = i \<Longrightarrow> payInvoice a id' usdc (Callback cs' out) s = Inl AlreadyPaid"
    using "3.prems"(2) by (simp add: pay_checks_def)
  have nested: "pay_checks id' s = None \<Longrightarrow>
      \<forall>(j, r) \<in> set (pay_attempts cs' (callback_state a id' usdc s)). j = i \<longrightarrow> r = Some AlreadyPaid"
  proof -
    assume chk: "pay_checks id' s = None"
    then have "id' \<noteq> i"
      using "3.prems"(2) by (auto simp: pay_checks_None)
    then have "isPaid (invoices (callback_state a id' usdc s) i)"
      using "3.prems"(2) by (simp add: callback_state_simps)
    then show ?thesis
      using "3.IH"(1) [OF chk callback_state_wf [OF "3.prems"(1) chk]] by blast
  qed
  have "well_formed (run_calls [Pay a id' usdc (Callback cs' out)] s)"
    and "isPaid (invoices (run_calls [Pay a id' usdc (Callback cs' out)] s) i)"
    using paid_kept [OF "3.prems", of "[Pay a id' usdc (Callback cs' out)]"] "3.prems"(2)
    by simp_all
  then have rest: "\<forall>(j, r) \<in> set (pay_attempts cs (run_calls [Pay a id' usdc (Callback cs' out)] s)).
      j = i \<longrightarrow> r = Some AlreadyPaid"
    using "3.IH"(2) by blast
  show ?case
    using hd nested rest by (auto simp del: payInvoice.simps run_calls.simps)
qed

lemma reachable_created_ids:
  assumes "reachable s"
  shows "map unat (created_ids (events s)) = [1..<Suc (unat (invoiceCount s))]"
  using reachable_accounted [OF assms]
  by (simp add: accounted_def initial_state_def)

lemma reachable_paid_count:
  assumes "reachable s"
  shows "paid_count i (events s) = (if isPaid (invoices s i) then 1 else 0)"
proof -
  have "paid_count i (events s) + (if isPaid (invoices initial_state i) then 1 else 0) =
        paid_count i (events initial_state) + (if isPaid (invoices s i) then 1 else 0)"
    using reachable_accounted [OF assms] unfolding accounted_def by blast
  then show ?thesis
    by (simp add: initial_state_def zero_invoice_def)
qed

lemma created_iff_assigned:
  assumes "reachable s"
  shows "i \<in> set (created_ids (events s)) \<longleftrightarrow> 0 < i \<and> i \<le> invoiceCount s"
proof -
  have "i \<in> set (created_ids (events s)) \<longleftrightarrow> unat i \<in> unat ` set (created_ids (events s))"
    by (auto simp: image_iff dest: unsigned_word_eqI)
  also have "\<dots> \<longleftrightarrow> unat i \<in> set (map unat (created_ids (events s)))"
    by simp
  also have "\<dots> \<longleftrightarrow> 1 \<le> unat i \<and> unat i \<le> unat (invoiceCount s)"
    unfolding reachable_created_ids [OF assms] by auto
  also have "\<dots> \<longleftrightarrow> 0 < i \<and> i \<le> invoiceCount s"
    by (auto simp: word_le_nat_alt word_less_nat_alt)
  finally show ?thesis .
qed

subsection \<open>The token address plays no part\<close>

lemma forget_calls_simps:
  "invoices (forget_calls s) = invoices s"
  "invoiceCount (forget_calls s) = invoiceCount s"
  "events (forget_calls s) = events s"
  by (simp_all add: forget_calls_def)

lemma forget_calls_eqD:
  assumes "forget_calls s1 = forget_calls s2"
  shows "invoices s1 = invoices s2" and "invoiceCount s1 = invoiceCount s2"
    and "events s1 = events s2"
  using forget_calls_simps [of s1] forget_calls_simps [of s2] assms by simp_all

lemma forget_calls_eqI:
  assumes "invoices s1 = invoices s2" and "invoiceCount s1 = invoiceCount s2"
    and "events s1 = events s2" and "state.more s1 = state.more s2"
  shows "forget_calls s1 = forget_calls s2"
  using assms by (cases s1, cases s2) (simp add: forget_calls_def)

lemma forget_calls_more: "forget_calls s1 = forget_calls s2 \<Longrightarrow> state.more s1 = state.more s2"
  by (cases s1, cases s2) (simp add: forget_calls_def)

lemma token_irrelevant:
  "forget_calls s1 = forget_calls s2 \<Longrightarrow>
     map_sum id forget_calls (payInvoice a i t cb s1) =
     map_sum id forget_calls (payInvoice a i t' cb s2)"
  "forget_calls s1 = forget_calls s2 \<Longrightarrow>
     forget_calls (run_calls cs s1) = forget_calls (run_calls cs s2)"
proof (induction a i t cb s1 and cs s1 arbitrary: s2 t' and s2 rule: payInvoice_run_calls.induct)
  case (1 msg_sender id' usdc cs out s)
  note eq = forget_calls_eqD [OF "1.prems"]
  have chk: "pay_checks id' s2 = pay_checks id' s"
    by (simp add: pay_checks_def eq)
  show ?case
  proof (cases "pay_checks id' s")
    case (Some e)
    then show ?thesis using chk by simp
  next
    case None
    have "forget_calls (callback_state msg_sender id' usdc s) =
          forget_calls (callback_state msg_sender id' t' s2)"
      using eq forget_calls_more [OF "1.prems"]
      by (intro forget_calls_eqI) (simp_all add: callback_state_def pay_call_def pay_update_def)
    then have r: "forget_calls (run_calls cs (callback_state msg_sender id' usdc s)) =
        forget_calls (run_calls cs (callback_state msg_sender id' t' s2))"
      using "1.IH" [OF None] by blast
    have "forget_calls ((run_calls cs (callback_state msg_sender id' usdc s))
           \<lparr>events := events (run_calls cs (callback_state msg_sender id' usdc s)) @ [InvoicePaid id' msg_sender]\<rparr>) =
          forget_calls ((run_calls cs (callback_state msg_sender id' t' s2))
           \<lparr>events := events (run_calls cs (callback_state msg_sender id' t' s2)) @ [InvoicePaid id' msg_sender]\<rparr>)"
      using forget_calls_eqD [OF r] forget_calls_more [OF r]
      by (intro forget_calls_eqI) simp_all
    then show ?thesis
      using None chk by (simp add: Let_def split: outcome.splits)
  qed
next
  case (2 s)
  then show ?case by simp
next
  case (3 a amount' dueDate' uri cs s)
  note eq = forget_calls_eqD [OF "3.prems"]
  have "forget_calls (case registerInvoice a amount' dueDate' uri s of Inl x \<Rightarrow> s | Inr (xa, s') \<Rightarrow> s') =
        forget_calls (case registerInvoice a amount' dueDate' uri s2 of Inl x \<Rightarrow> s2 | Inr (xa, s') \<Rightarrow> s')"
    using eq forget_calls_more [OF "3.prems"] "3.prems"
    by (auto simp: registerInvoice_def Let_def intro!: forget_calls_eqI)
  then show ?case
    using "3.IH" by simp
next
  case (4 a id' usdc cb cs s)
  have p: "map_sum id forget_calls (payInvoice a id' usdc cb s) =
           map_sum id forget_calls (payInvoice a id' usdc cb s2)"
    using "4.IH"(1) [OF "4.prems"] .
  have "forget_calls (case payInvoice a id' usdc cb s of Inl x \<Rightarrow> s | Inr s' \<Rightarrow> s') =
        forget_calls (case payInvoice a id' usdc cb s2 of Inl x \<Rightarrow> s2 | Inr s' \<Rightarrow> s')"
    using p "4.prems"
    by (cases "payInvoice a id' usdc cb s"; cases "payInvoice a id' usdc cb s2") simp_all
  then show ?case
    using "4.IH"(2) by simp
qed

subsection \<open>What a successful payment leaves behind\<close>

lemma pay_success:
  assumes wf: "well_formed s" and r: "payInvoice a i t (Callback cs out) s = Inr s'"
  shows "invoices s' i = (invoices s i)\<lparr>isPaid := True, client := a\<rparr>"
    and "prefix (ledgerCalls s @ [\<lparr>token = t, sender = a, recipient = freelancer (invoices s i),
            units = amount (invoices s i)\<rparr>]) (ledgerCalls s')"
    and "\<exists>es. events s' = events s @ es @ [InvoicePaid i a]"
    and "paid_count i (events s') = Suc (paid_count i (events s))"
    and "invoiceCount s \<le> invoiceCount s'"
proof -
  define s1 where "s1 = callback_state a i t s"
  define s2 where "s2 = run_calls cs s1"
  note res = payInvoice_Inr [OF r]
  have s': "s' = s2\<lparr>events := events s2 @ [InvoicePaid i a]\<rparr>"
    using res(3) by (simp add: s2_def s1_def)
  have wf1: "well_formed s1"
    unfolding s1_def by (rule callback_state_wf [OF wf res(1)])
  have paid1: "isPaid (invoices s1 i)"
    by (simp add: s1_def callback_state_simps)
  have kept: "invoices s2 i = invoices s1 i"
    unfolding s2_def by (rule paid_kept(1) [OF wf1 paid1])
  have ev: "evolves s1 s2" and ac: "accounted s1 s2"
    using progress(2) [OF wf1, of cs] by (simp_all add: s2_def)
  show "invoices s' i = (invoices s i)\<lparr>isPaid := True, client := a\<rparr>"
    using kept by (simp add: s' s1_def callback_state_simps)
  show "prefix (ledgerCalls s @ [\<lparr>token = t, sender = a, recipient = freelancer (invoices s i),
            units = amount (invoices s i)\<rparr>]) (ledgerCalls s')"
    using ev by (simp add: evolves_def s' s1_def callback_state_simps)
  have "prefix (events s) (events s2)"
    using ev by (simp add: evolves_def s1_def callback_state_simps)
  then obtain es where "events s2 = events s @ es"
    unfolding prefix_def by blast
  then show "\<exists>es. events s' = events s @ es @ [InvoicePaid i a]"
    by (simp add: s')
  have "paid_count i (events s2) + (if isPaid (invoices s1 i) then 1 else 0) =
        paid_count i (events s1) + (if isPaid (invoices s2 i) then 1 else 0)"
    using ac unfolding accounted_def by blast
  then have "paid_count i (events s2) = paid_count i (events s)"
    using paid1 kept by (simp add: s1_def callback_state_simps(3))
  then show "paid_count i (events s') = Suc (paid_count i (events s))"
    by (simp add: s' paid_count_append)
  show "invoiceCount s \<le> invoiceCount s'"
    using ev by (simp add: evolves_def s' s1_def callback_state_simps)
qed

lemma assigned_kept:
  assumes "well_formed s" and "0 < i \<and> i \<le> invoiceCount s"
  shows "freelancer (invoices (run_calls cs s) i) = freelancer (invoices s i)"
    and "amount (invoices (run_calls cs s) i) = amount (invoices s i)"
    and "dueDate (invoices (run_calls cs s) i) = dueDate (invoices s i)"
    and "invoiceURI (invoices (run_calls cs s) i) = invoiceURI (invoices s i)"
    and "0 < i \<and> i \<le> invoiceCount (run_calls cs s)"
proof -
  have ev: "evolves s (run_calls cs s)"
    using progress(2) [OF assms(1)] by blast
  show "freelancer (invoices (run_calls cs s) i) = freelancer (invoices s i)"
    using ev assms(2) unfolding evolves_def by blast
  show "amount (invoices (run_calls cs s) i) = amount (invoices s i)"
    using ev assms(2) unfolding evolves_def by blast
  show "dueDate (invoices (run_calls cs s) i) = dueDate (invoices s i)"
    using ev assms(2) unfolding evolves_def by blast
  show "invoiceURI (invoices (run_calls cs s) i) = invoiceURI (invoices s i)"
    using ev assms(2) unfolding evolves_def by blast
  show "0 < i \<and> i \<le> invoiceCount (run_calls cs s)"
    using ev assms(2) unfolding evolves_def by auto
qed

lemma pay_no_reentry:
  assumes "payInvoice a i t (Callback [] out) s = Inr s'"
  shows "s' = s\<lparr>invoices := (invoices s)(i := (invoices s i)\<lparr>isPaid := True, client := a\<rparr>),
                ledgerCalls := ledgerCalls s @ [\<lparr>token = t, sender = a,
                   recipient = freelancer (invoices s i), units = amount (invoices s i)\<rparr>],
                events := events s @ [InvoicePaid i a]\<rparr>"
  using payInvoice_Inr(3) [OF assms]
  by (simp add: callback_state_def pay_call_def pay_update_def)

lemma reachable_example:
  "reachable (run_calls txs initial_state)"
  by (rule reachable_run [OF reachable_initial])

section \<open>The claims\<close>

text \<open>
  C1. In a reachable state, on an invoice that is unpaid and has a nonzero amount,
  one call of \<open>payInvoice\<close> whose ledger call returns true (the allowance was
  sufficient) returns: afterwards the record of the invoice is the one before with the
  paid flag set and the caller as client, the ledger named by the caller was asked to
  move exactly the stored amount from the caller to the stored freelancer, and
  \<open>InvoicePaid(id, caller)\<close> is the last event of the log and the only one added for
  this identifier. When the ledger does not call back into the contract, the state
  after the call is the state before it with just these three changes.
\<close>

theorem pay_unpaid_invoice_succeeds:
  assumes "reachable s" and "\<not> isPaid (invoices s i)" and "0 < amount (invoices s i)"
  shows "\<exists>s'. payInvoice a i t (Callback cs (Returns True)) s = Inr s' \<and>
     invoices s' i = (invoices s i)\<lparr>isPaid := True, client := a\<rparr> \<and>
     prefix (ledgerCalls s @ [\<lparr>token = t, sender = a, recipient = freelancer (invoices s i),
               units = amount (invoices s i)\<rparr>]) (ledgerCalls s') \<and>
     (\<exists>es. events s' = events s @ es @ [InvoicePaid i a]) \<and>
     paid_count i (events s') = Suc (paid_count i (events s)) \<and>
     (cs = [] \<longrightarrow>
        s' = s\<lparr>invoices := (invoices s)(i := (invoices s i)\<lparr>isPaid := True, client := a\<rparr>),
               ledgerCalls := ledgerCalls s @ [\<lparr>token = t, sender = a,
                  recipient = freelancer (invoices s i), units = amount (invoices s i)\<rparr>],
               events := events s @ [InvoicePaid i a]\<rparr>)"
proof -
  have chk: "pay_checks i s = None"
    using assms(2,3) by (simp add: pay_checks_None)
  then obtain s' where r: "payInvoice a i t (Callback cs (Returns True)) s = Inr s'"
    by (simp add: Let_def)
  note wf = reachable_well_formed [OF assms(1)]
  show ?thesis
    using r pay_success [OF wf r] pay_no_reentry [of a i t "Returns True" s s']
    by blast
qed

theorem pay_unpaid_invoice_succeeds_witness:
  "reachable (run_calls [Register 7 500 9 ''ipfs://QmExample''] initial_state) \<and>
   \<not> isPaid (invoices (run_calls [Register 7 500 9 ''ipfs://QmExample''] initial_state) 1) \<and>
   0 < amount (invoices (run_calls [Register 7 500 9 ''ipfs://QmExample''] initial_state) 1) \<and>
   (\<exists>s'. payInvoice 8 1 99 (Callback [] (Returns True))
            (run_calls [Register 7 500 9 ''ipfs://QmExample''] initial_state) = Inr s' \<and>
      invoices s' 1 = \<lparr>freelancer = 7, client = 8, amount = 500, dueDate = 9, isPaid = True,
                       invoiceURI = ''ipfs://QmExample''\<rparr> \<and>
      ledgerCalls s' = [\<lparr>token = 99, sender = 8, recipient = 7, units = 500\<rparr>] \<and>
      events s' = [InvoiceCreated 1 7 500, InvoicePaid 1 8])"
proof -
  have h1: "reachable (run_calls [Register 7 500 9 ''ipfs://QmExample''] initial_state)"
    by (rule reachable_example)
  have h2: "\<not> isPaid (invoices (run_calls [Register 7 500 9 ''ipfs://QmExample''] initial_state) 1)"
    by (simp add: evaluate)
  have h3: "0 < amount (invoices (run_calls [Register 7 500 9 ''ipfs://QmExample''] initial_state) 1)"
    by (simp add: evaluate)
  show ?thesis
    using h1 h2 h3 pay_unpaid_invoice_succeeds [OF h1 h2 h3, of 8 99 "[]"]
    by (auto simp: evaluate)
qed

text \<open>
  C2. In a reachable state, when \<open>payInvoice\<close> passes its two checks, the ledger's code
  runs from a state in which the paid flag of the invoice is already set and the caller
  is already its client; every call of \<open>payInvoice\<close> for the same identifier made while
  the ledger's code runs, at any depth of nesting, fails with \<open>AlreadyPaid\<close>. And over
  every execution: the log holds exactly one \<open>InvoicePaid\<close> event for each paid invoice
  and none for an unpaid one, and a paid flag that is set stays set whatever calls
  follow.
\<close>

theorem reentrant_pay_fails:
  assumes "reachable s"
  shows "(\<not> isPaid (invoices s i) \<and> 0 < amount (invoices s i) \<longrightarrow>
            payInvoice a i t (Callback cs out) s =
              (case out of
                 Reverts \<Rightarrow> Inl LedgerReverted
               | Returns success \<Rightarrow>
                   if success
                   then Inr ((run_calls cs (callback_state a i t s))
                          \<lparr>events := events (run_calls cs (callback_state a i t s)) @
                             [InvoicePaid i a]\<rparr>)
                   else Inl TransferRejected) \<and>
            isPaid (invoices (callback_state a i t s) i) \<and>
            client (invoices (callback_state a i t s) i) = a \<and>
            (\<forall>(j, r) \<in> set (pay_attempts cs (callback_state a i t s)).
               j = i \<longrightarrow> r = Some AlreadyPaid)) \<and>
         (\<forall>j. paid_count j (events s) = (if isPaid (invoices s j) then 1 else 0) \<and>
              (isPaid (invoices s j) \<longrightarrow> (\<forall>txs. isPaid (invoices (run_calls txs s) j))))"
proof (intro conjI impI allI)
  note wf = reachable_well_formed [OF assms]
  {
    assume h: "\<not> isPaid (invoices s i) \<and> 0 < amount (invoices s i)"
    then have chk: "pay_checks i s = None"
      by (simp add: pay_checks_None)
    show "payInvoice a i t (Callback cs out) s =
              (case out of
                 Reverts \<Rightarrow> Inl LedgerReverted
               | Returns success \<Rightarrow>
                   if success
                   then Inr ((run_calls cs (callback_state a i t s))
                          \<lparr>events := events (run_calls cs (callback_state a i t s)) @
                             [InvoicePaid i a]\<rparr>)
                   else Inl TransferRejected)"
      using chk by (simp add: Let_def split: outcome.splits)
    show paid: "isPaid (invoices (callback_state a i t s) i)"
      by (simp add: callback_state_simps)
    show "client (invoices (callback_state a i t s) i) = a"
      by (simp add: callback_state_simps)
    show "\<forall>(j, r) \<in> set (pay_attempts cs (callback_state a i t s)).
               j = i \<longrightarrow> r = Some AlreadyPaid"
      using paid_blocks_attempts [OF callback_state_wf [OF wf chk] paid] .
  }
  fix j
  show "paid_count j (events s) = (if isPaid (invoices s j) then 1 else 0)"
    by (rule reachable_paid_count [OF assms])
  fix txs
  assume "isPaid (invoices s j)"
  then show "isPaid (invoices (run_calls txs s) j)"
    using paid_kept(1) [OF wf, of j txs] by simp
qed

theorem reentrant_pay_fails_witness:
  "reachable (run_calls [Register 7 500 9 ''a'', Register 7 20 9 ''b'',
      Pay 8 2 99 (Callback [] (Returns True))] initial_state) \<and>
   \<not> isPaid (invoices (run_calls [Register 7 500 9 ''a'', Register 7 20 9 ''b'',
      Pay 8 2 99 (Callback [] (Returns True))] initial_state) 1) \<and>
   0 < amount (invoices (run_calls [Register 7 500 9 ''a'', Register 7 20 9 ''b'',
      Pay 8 2 99 (Callback [] (Returns True))] initial_state) 1) \<and>
   isPaid (invoices (run_calls [Register 7 500 9 ''a'', Register 7 20 9 ''b'',
      Pay 8 2 99 (Callback [] (Returns True))] initial_state) 2) \<and>
   pay_attempts [Pay 3 1 99 (Callback [] (Returns True))]
     (callback_state 8 1 99 (run_calls [Register 7 500 9 ''a'', Register 7 20 9 ''b'',
        Pay 8 2 99 (Callback [] (Returns True))] initial_state)) = [(1, Some AlreadyPaid)] \<and>
   paid_count 2 (events (run_calls [Register 7 500 9 ''a'', Register 7 20 9 ''b'',
      Pay 8 2 99 (Callback [] (Returns True))] initial_state)) = 1 \<and>
   isPaid (invoices (run_calls [Pay 3 2 99 (Callback [] (Returns True))]
     (run_calls [Register 7 500 9 ''a'', Register 7 20 9 ''b'',
        Pay 8 2 99 (Callback [] (Returns True))] initial_state)) 2)"
proof -
  have h1: "reachable (run_calls [Register 7 500 9 ''a'', Register 7 20 9 ''b'',
      Pay 8 2 99 (Callback [] (Returns True))] initial_state)"
    by (rule reachable_example)
  have h2: "\<not> isPaid (invoices (run_calls [Register 7 500 9 ''a'', Register 7 20 9 ''b'',
      Pay 8 2 99 (Callback [] (Returns True))] initial_state) 1) \<and>
   0 < amount (invoices (run_calls [Register 7 500 9 ''a'', Register 7 20 9 ''b'',
      Pay 8 2 99 (Callback [] (Returns True))] initial_state) 1)"
    by (simp add: evaluate)
  have h3: "isPaid (invoices (run_calls [Register 7 500 9 ''a'', Register 7 20 9 ''b'',
      Pay 8 2 99 (Callback [] (Returns True))] initial_state) 2)"
    by (simp add: evaluate)
  have h4: "pay_attempts [Pay 3 1 99 (Callback [] (Returns True))]
     (callback_state 8 1 99 (run_calls [Register 7 500 9 ''a'', Register 7 20 9 ''b'',
        Pay 8 2 99 (Callback [] (Returns True))] initial_state)) \<noteq> []"
    by simp
  show ?thesis
    using h1 h2 h3 h4
      reentrant_pay_fails [OF h1, of 1 8 99 "[Pay 3 1 99 (Callback [] (Returns True))]" "Returns True"]
    by (auto simp del: payInvoice.simps run_calls.simps split: if_splits)
qed

text \<open>
  C3. When the ledger's \<open>transferFrom\<close> returns false, \<open>payInvoice\<close> reverts: on an
  unpaid invoice with a nonzero amount the error is that of the third \<open>require\<close>
  (\<open>TransferRejected\<close>), in no state does the call return, and the state after the call
  is the state before it, so the paid flag is still false and no event was emitted.
\<close>

theorem failed_transfer_applies_nothing:
  "(\<not> isPaid (invoices s i) \<and> 0 < amount (invoices s i) \<longrightarrow>
      payInvoice a i t (Callback cs (Returns False)) s = Inl TransferRejected) \<and>
   (\<forall>s'. payInvoice a i t (Callback cs (Returns False)) s \<noteq> Inr s') \<and>
   run_calls [Pay a i t (Callback cs (Returns False))] s = s"
  by (auto simp: pay_checks_def Let_def split: option.splits)

theorem failed_transfer_applies_nothing_witness:
  "\<not> isPaid (invoices (run_calls [Register 7 500 9 ''ipfs://QmExample''] initial_state) 1) \<and>
   0 < amount (invoices (run_calls [Register 7 500 9 ''ipfs://QmExample''] initial_state) 1) \<and>
   payInvoice 8 1 99 (Callback [] (Returns False))
     (run_calls [Register 7 500 9 ''ipfs://QmExample''] initial_state) = Inl TransferRejected \<and>
   run_calls [Pay 8 1 99 (Callback [] (Returns False))]
     (run_calls [Register 7 500 9 ''ipfs://QmExample''] initial_state) =
     run_calls [Register 7 500 9 ''ipfs://QmExample''] initial_state"
  using failed_transfer_applies_nothing
    [of "run_calls [Register 7 500 9 ''ipfs://QmExample''] initial_state" 1 8 99 "[]"]
  by (simp add: evaluate)

text \<open>
  C4. On an invoice whose paid flag is set, \<open>payInvoice\<close> fails with \<open>AlreadyPaid\<close>
  whoever calls it and whatever ledger is named, and the state after the call is the
  state before it: no invoice, no ledger call and no event has changed.
\<close>

theorem pay_paid_invoice_fails:
  assumes "isPaid (invoices s i)"
  shows "payInvoice a i t cb s = Inl AlreadyPaid \<and> run_calls [Pay a i t cb] s = s"
  using assms by (cases cb) (simp add: pay_checks_def)

theorem pay_paid_invoice_fails_witness:
  "isPaid (invoices (run_calls [Register 7 500 9 ''ipfs://QmExample'',
       Pay 8 1 99 (Callback [] (Returns True))] initial_state) 1) \<and>
   payInvoice 3 1 99 (Callback [] (Returns True))
     (run_calls [Register 7 500 9 ''ipfs://QmExample'',
       Pay 8 1 99 (Callback [] (Returns True))] initial_state) = Inl AlreadyPaid \<and>
   run_calls [Pay 3 1 99 (Callback [] (Returns True))]
     (run_calls [Register 7 500 9 ''ipfs://QmExample'',
       Pay 8 1 99 (Callback [] (Returns True))] initial_state) =
   run_calls [Register 7 500 9 ''ipfs://QmExample'',
       Pay 8 1 99 (Callback [] (Returns True))] initial_state"
proof -
  have h: "isPaid (invoices (run_calls [Register 7 500 9 ''ipfs://QmExample'',
       Pay 8 1 99 (Callback [] (Returns True))] initial_state) 1)"
    by (simp add: evaluate)
  show ?thesis
    using h pay_paid_invoice_fails [OF h, of 3 99 "Callback [] (Returns True)"] by blast
qed

text \<open>
  C5. In a reachable state, \<open>payInvoice\<close> on an identifier whose stored amount is zero
  (never assigned, or registered with amount zero) fails with \<open>NotFound\<close> and the state
  after the call is the state before it; an invoice registered with amount zero is
  unpaid after every later sequence of calls; and a paid flag that is set goes with a
  nonzero amount.
\<close>

theorem pay_missing_invoice_fails:
  assumes "reachable s"
  shows "(amount (invoices s i) = 0 \<longrightarrow>
            payInvoice a i t cb s = Inl NotFound \<and>
            run_calls [Pay a i t cb] s = s \<and>
            (0 < i \<and> i \<le> invoiceCount s \<longrightarrow> (\<forall>txs. \<not> isPaid (invoices (run_calls txs s) i)))) \<and>
         (isPaid (invoices s i) \<longrightarrow> 0 < amount (invoices s i))"
proof (intro conjI impI allI)
  note wf = reachable_well_formed [OF assms]
  show paid_pos: "isPaid (invoices s i) \<Longrightarrow> 0 < amount (invoices s i)"
    using wf unfolding well_formed_def by blast
  assume zero: "amount (invoices s i) = 0"
  then have unpaid: "\<not> isPaid (invoices s i)"
    using paid_pos by auto
  obtain cs out where cb: "cb = Callback cs out"
    by (cases cb)
  show r: "payInvoice a i t cb s = Inl NotFound"
    using zero unpaid by (simp add: cb pay_checks_def)
  show "run_calls [Pay a i t cb] s = s"
    using r by simp
  fix txs
  assume rng: "0 < i \<and> i \<le> invoiceCount s"
  have "amount (invoices (run_calls txs s) i) = 0"
    using assigned_kept(2) [OF wf rng, of txs] zero by simp
  moreover have "well_formed (run_calls txs s)"
    using progress(2) [OF wf] by blast
  then have "isPaid (invoices (run_calls txs s) i) \<longrightarrow> 0 < amount (invoices (run_calls txs s) i)"
    unfolding well_formed_def by blast
  ultimately show "\<not> isPaid (invoices (run_calls txs s) i)"
    by simp
qed

theorem pay_missing_invoice_fails_witness:
  "reachable (run_calls [Register 7 0 9 ''a'', Register 7 20 9 ''b'',
      Pay 8 2 99 (Callback [] (Returns True))] initial_state) \<and>
   amount (invoices (run_calls [Register 7 0 9 ''a'', Register 7 20 9 ''b'',
      Pay 8 2 99 (Callback [] (Returns True))] initial_state) 1) = 0 \<and>
   amount (invoices (run_calls [Register 7 0 9 ''a'', Register 7 20 9 ''b'',
      Pay 8 2 99 (Callback [] (Returns True))] initial_state) 5) = 0 \<and>
   isPaid (invoices (run_calls [Register 7 0 9 ''a'', Register 7 20 9 ''b'',
      Pay 8 2 99 (Callback [] (Returns True))] initial_state) 2) \<and>
   payInvoice 8 1 99 (Callback [] (Returns True))
     (run_calls [Register 7 0 9 ''a'', Register 7 20 9 ''b'',
        Pay 8 2 99 (Callback [] (Returns True))] initial_state) = Inl NotFound \<and>
   payInvoice 8 5 99 (Callback [] (Returns True))
     (run_calls [Register 7 0 9 ''a'', Register 7 20 9 ''b'',
        Pay 8 2 99 (Callback [] (Returns True))] initial_state) = Inl NotFound \<and>
   0 < amount (invoices (run_calls [Register 7 0 9 ''a'', Register 7 20 9 ''b'',
      Pay 8 2 99 (Callback [] (Returns True))] initial_state) 2)"
proof -
  have h1: "reachable (run_calls [Register 7 0 9 ''a'', Register 7 20 9 ''b'',
      Pay 8 2 99 (Callback [] (Returns True))] initial_state)"
    by (rule reachable_example)
  have h2: "amount (invoices (run_calls [Register 7 0 9 ''a'', Register 7 20 9 ''b'',
      Pay 8 2 99 (Callback [] (Returns True))] initial_state) 1) = 0"
    by (simp add: evaluate)
  have h3: "amount (invoices (run_calls [Register 7 0 9 ''a'', Register 7 20 9 ''b'',
      Pay 8 2 99 (Callback [] (Returns True))] initial_state) 5) = 0"
    by (simp add: evaluate zero_invoice_def)
  have h4: "isPaid (invoices (run_calls [Register 7 0 9 ''a'', Register 7 20 9 ''b'',
      Pay 8 2 99 (Callback [] (Returns True))] initial_state) 2)"
    by (simp add: evaluate)
  show ?thesis
    using h1 h2 h3 h4
      pay_missing_invoice_fails [OF h1, of 1 8 99 "Callback [] (Returns True)"]
      pay_missing_invoice_fails [OF h1, of 5 8 99 "Callback [] (Returns True)"]
      pay_missing_invoice_fails [OF h1, of 2 8 99 "Callback [] (Returns True)"]
    by blast
qed

text \<open>
  C6. Unless the counter has reached \<open>2^256 - 1\<close> (the identifiers are used up),
  \<open>registerInvoice\<close> returns for every caller, amount (zero included), due date and
  URI: it increments the counter, stores at the new identifier a record with the
  caller as freelancer, no client, the paid flag false and the three values as given,
  appends \<open>InvoiceCreated(id, caller, amount)\<close> to the log and returns the new
  identifier; \<open>getInvoice\<close> on that identifier then returns exactly that record.
\<close>

theorem register_succeeds:
  assumes "invoiceCount s \<noteq> - 1"
  shows "\<exists>n s'. registerInvoice a m d u s = Inr (n, s') \<and>
           n = invoiceCount s + 1 \<and> unat n = Suc (unat (invoiceCount s)) \<and>
           s' = s\<lparr>invoiceCount := n,
                  invoices := (invoices s)(n := \<lparr>freelancer = a, client = 0, amount = m,
                     dueDate = d, isPaid = False, invoiceURI = u\<rparr>),
                  events := events s @ [InvoiceCreated n a m]\<rparr> \<and>
           fst (getInvoice n s') = \<lparr>freelancer = a, client = 0, amount = m,
                     dueDate = d, isPaid = False, invoiceURI = u\<rparr> \<and>
           snd (getInvoice n s') = s'"
  using assms by (simp add: registerInvoice_def Let_def getInvoice_def unat_inc)

theorem register_succeeds_witness:
  "invoiceCount initial_state \<noteq> - 1 \<and>
   (\<exists>s'. registerInvoice 7 0 9 ''ipfs://QmExample'' initial_state = Inr (1, s') \<and>
      invoiceCount s' = 1 \<and>
      events s' = [InvoiceCreated 1 7 0] \<and>
      fst (getInvoice 1 s') = \<lparr>freelancer = 7, client = 0, amount = 0,
                     dueDate = 9, isPaid = False, invoiceURI = ''ipfs://QmExample''\<rparr>)"
proof -
  have h: "invoiceCount initial_state \<noteq> - 1"
    by (simp add: initial_state_def)
  show ?thesis
    using h register_succeeds [OF h, of 7 0 9 "''ipfs://QmExample''"]
    by (auto simp: initial_state_def)
qed

text \<open>
  C7. In a reachable state the identifiers of the \<open>InvoiceCreated\<close> events, in the order
  of the log and read as numbers, are \<open>1, 2, ..., invoiceCount\<close>. A registration that
  returns, returns the counter plus one, an identifier not in the log before, and adds
  it at the end. A \<open>payInvoice\<close> that fails leaves the state as it was. Whatever calls
  follow, the counter does not go down, the identifiers already logged stay the first
  ones of the log, and the record at each of them keeps the freelancer, amount, due date
  and URI it was created with.
\<close>

theorem identifiers_consecutive:
  assumes "reachable s"
  shows "map unat (created_ids (events s)) = [1..<Suc (unat (invoiceCount s))] \<and>
         (\<forall>a m d u n s'. registerInvoice a m d u s = Inr (n, s') \<longrightarrow>
            unat n = Suc (unat (invoiceCount s)) \<and> invoiceCount s' = n \<and>
            n \<notin> set (created_ids (events s)) \<and>
            created_ids (events s') = created_ids (events s) @ [n]) \<and>
         (\<forall>a i t cb e. payInvoice a i t cb s = Inl e \<longrightarrow> run_calls [Pay a i t cb] s = s) \<and>
         (\<forall>txs. invoiceCount s \<le> invoiceCount (run_calls txs s) \<and>
            prefix (created_ids (events s)) (created_ids (events (run_calls txs s))) \<and>
            (\<forall>i \<in> set (created_ids (events s)).
               freelancer (invoices (run_calls txs s) i) = freelancer (invoices s i) \<and>
               amount (invoices (run_calls txs s) i) = amount (invoices s i) \<and>
               dueDate (invoices (run_calls txs s) i) = dueDate (invoices s i) \<and>
               invoiceURI (invoices (run_calls txs s) i) = invoiceURI (invoices s i)))"
proof (intro conjI allI impI ballI)
  note wf = reachable_well_formed [OF assms]
  show "map unat (created_ids (events s)) = [1..<Suc (unat (invoiceCount s))]"
    by (rule reachable_created_ids [OF assms])
  {
    fix a m d u n s'
    assume r: "registerInvoice a m d u s = Inr (n, s')"
    note res = register_result [OF r]
    show "unat n = Suc (unat (invoiceCount s))"
      unfolding res(2) by (rule unat_inc [OF res(1)])
    show "invoiceCount s' = n"
      unfolding res(3) by simp
    have "\<not> n \<le> invoiceCount s"
      using word_inc_facts(1) [OF res(1)] unfolding res(2) by auto
    then show "n \<notin> set (created_ids (events s))"
      unfolding created_iff_assigned [OF assms] by simp
    show "created_ids (events s') = created_ids (events s) @ [n]"
      unfolding res(3) by (simp add: created_ids_append)
  }
  {
    fix a i t cb e
    assume "payInvoice a i t cb s = Inl e"
    then show "run_calls [Pay a i t cb] s = s" by simp
  }
  fix txs
  have ev: "evolves s (run_calls txs s)"
    using progress(2) [OF wf] by blast
  show "invoiceCount s \<le> invoiceCount (run_calls txs s)"
    using ev unfolding evolves_def by blast
  have "prefix (events s) (events (run_calls txs s))"
    using ev unfolding evolves_def by blast
  then show "prefix (created_ids (events s)) (created_ids (events (run_calls txs s)))"
    unfolding prefix_def by (auto simp: created_ids_append)
  fix i
  assume "i \<in> set (created_ids (events s))"
  then have rng: "0 < i \<and> i \<le> invoiceCount s"
    unfolding created_iff_assigned [OF assms] .
  show "freelancer (invoices (run_calls txs s) i) = freelancer (invoices s i)"
    by (rule assigned_kept(1) [OF wf rng])
  show "amount (invoices (run_calls txs s) i) = amount (invoices s i)"
    by (rule assigned_kept(2) [OF wf rng])
  show "dueDate (invoices (run_calls txs s) i) = dueDate (invoices s i)"
    by (rule assigned_kept(3) [OF wf rng])
  show "invoiceURI (invoices (run_calls txs s) i) = invoiceURI (invoices s i)"
    by (rule assigned_kept(4) [OF wf rng])
qed

theorem identifiers_consecutive_witness:
  "reachable (run_calls [Register 7 500 9 ''a'', Pay 8 1 99 (Callback [] (Returns False)),
      Pay 8 4 99 (Callback [] (Returns True)), Register 3 20 9 ''b'',
      Pay 8 2 99 (Callback [] (Returns True)), Register 7 0 0 ''c''] initial_state) \<and>
   created_ids (events (run_calls [Register 7 500 9 ''a'', Pay 8 1 99 (Callback [] (Returns False)),
      Pay 8 4 99 (Callback [] (Returns True)), Register 3 20 9 ''b'',
      Pay 8 2 99 (Callback [] (Returns True)), Register 7 0 0 ''c''] initial_state)) = [1, 2, 3] \<and>
   map unat (created_ids (events (run_calls [Register 7 500 9 ''a'', Pay 8 1 99 (Callback [] (Returns False)),
      Pay 8 4 99 (Callback [] (Returns True)), Register 3 20 9 ''b'',
      Pay 8 2 99 (Callback [] (Returns True)), Register 7 0 0 ''c''] initial_state))) =
     [1..<Suc (unat (invoiceCount (run_calls [Register 7 500 9 ''a'', Pay 8 1 99 (Callback [] (Returns False)),
      Pay 8 4 99 (Callback [] (Returns True)), Register 3 20 9 ''b'',
      Pay 8 2 99 (Callback [] (Returns True)), Register 7 0 0 ''c''] initial_state)))] \<and>
   amount (invoices (run_calls [Register 5 1 1 ''d'']
     (run_calls [Register 7 500 9 ''a'', Pay 8 1 99 (Callback [] (Returns False)),
      Pay 8 4 99 (Callback [] (Returns True)), Register 3 20 9 ''b'',
      Pay 8 2 99 (Callback [] (Returns True)), Register 7 0 0 ''c''] initial_state)) 1) = 500"
proof -
  have h1: "reachable (run_calls [Register 7 500 9 ''a'', Pay 8 1 99 (Callback [] (Returns False)),
      Pay 8 4 99 (Callback [] (Returns True)), Register 3 20 9 ''b'',
      Pay 8 2 99 (Callback [] (Returns True)), Register 7 0 0 ''c''] initial_state)"
    by (rule reachable_example)
  have h2: "created_ids (events (run_calls [Register 7 500 9 ''a'', Pay 8 1 99 (Callback [] (Returns False)),
      Pay 8 4 99 (Callback [] (Returns True)), Register 3 20 9 ''b'',
      Pay 8 2 99 (Callback [] (Returns True)), Register 7 0 0 ''c''] initial_state)) = [1, 2, 3]"
    by (simp add: evaluate zero_invoice_def)
  have h3: "amount (invoices (run_calls [Register 7 500 9 ''a'', Pay 8 1 99 (Callback [] (Returns False)),
      Pay 8 4 99 (Callback [] (Returns True)), Register 3 20 9 ''b'',
      Pay 8 2 99 (Callback [] (Returns True)), Register 7 0 0 ''c''] initial_state) 1) = 500"
    by (simp add: evaluate zero_invoice_def)
  have h4: "(1::uint256) \<in> set [1, 2, 3]"
    by simp
  show ?thesis
    using h1 h2 h3 h4
      identifiers_consecutive [OF h1]
    by (metis (no_types, lifting))
qed

text \<open>
  C8. As stated the claim fails: a ledger may call \<open>registerInvoice\<close> while its
  \<open>transferFrom\<close> runs, and then the payment of invoice 1 returns with the counter
  moved from 1 to 2 and a new record at identifier 2.
\<close>

theorem pay_frame_counterexample:
  "\<not> isl (payInvoice 8 1 99 (Callback [Register 5 1 0 ''b''] (Returns True))
            (run_calls [Register 7 500 9 ''a''] initial_state)) \<and>
   invoiceCount (run_calls [Register 7 500 9 ''a''] initial_state) = 1 \<and>
   invoiceCount (projr (payInvoice 8 1 99 (Callback [Register 5 1 0 ''b''] (Returns True))
            (run_calls [Register 7 500 9 ''a''] initial_state))) = 2 \<and>
   invoices (run_calls [Register 7 500 9 ''a''] initial_state) 2 =
     \<lparr>freelancer = 0, client = 0, amount = 0, dueDate = 0, isPaid = False, invoiceURI = []\<rparr> \<and>
   invoices (projr (payInvoice 8 1 99 (Callback [Register 5 1 0 ''b''] (Returns True))
            (run_calls [Register 7 500 9 ''a''] initial_state))) 2 =
     \<lparr>freelancer = 5, client = 0, amount = 1, dueDate = 0, isPaid = False, invoiceURI = ''b''\<rparr>"
  by (simp add: evaluate zero_invoice_def)

text \<open>
  C8, amended. In a reachable state: an identifier that has been created stays created
  and its record keeps its freelancer, amount, due date and URI whatever calls follow;
  a \<open>payInvoice\<close> that returns and whose ledger made no call back into the contract
  changed the paid flag and the client of that invoice and nothing else of the storage
  (the log and the record of ledger calls each grew by one entry); and when the ledger
  did call back, the record of the paid invoice still differs from the one before in
  the paid flag and the client only, and the state is the one the calls of the ledger
  produced, started from the state with these two fields written, with the
  \<open>InvoicePaid\<close> event added.
\<close>

theorem pay_frame:
  assumes "reachable s"
  shows "(\<forall>i \<in> set (created_ids (events s)). \<forall>txs.
            i \<in> set (created_ids (events (run_calls txs s))) \<and>
            freelancer (invoices (run_calls txs s) i) = freelancer (invoices s i) \<and>
            amount (invoices (run_calls txs s) i) = amount (invoices s i) \<and>
            dueDate (invoices (run_calls txs s) i) = dueDate (invoices s i) \<and>
            invoiceURI (invoices (run_calls txs s) i) = invoiceURI (invoices s i)) \<and>
         (\<forall>a i t out s'. payInvoice a i t (Callback [] out) s = Inr s' \<longrightarrow>
            s' = s\<lparr>invoices := (invoices s)(i := (invoices s i)\<lparr>isPaid := True, client := a\<rparr>),
                   ledgerCalls := ledgerCalls s @ [\<lparr>token = t, sender = a,
                      recipient = freelancer (invoices s i), units = amount (invoices s i)\<rparr>],
                   events := events s @ [InvoicePaid i a]\<rparr>) \<and>
         (\<forall>a i t cs out s'. payInvoice a i t (Callback cs out) s = Inr s' \<longrightarrow>
            invoices s' i = (invoices s i)\<lparr>isPaid := True, client := a\<rparr> \<and>
            s' = (run_calls cs (callback_state a i t s))
                   \<lparr>events := events (run_calls cs (callback_state a i t s)) @ [InvoicePaid i a]\<rparr>)"
proof (intro conjI allI impI ballI)
  note wf = reachable_well_formed [OF assms]
  {
    fix i txs
    assume "i \<in> set (created_ids (events s))"
    then have rng: "0 < i \<and> i \<le> invoiceCount s"
      unfolding created_iff_assigned [OF assms] .
    show "i \<in> set (created_ids (events (run_calls txs s)))"
      unfolding created_iff_assigned [OF reachable_run [OF assms]]
      by (rule assigned_kept(5) [OF wf rng])
    show "freelancer (invoices (run_calls txs s) i) = freelancer (invoices s i)"
      by (rule assigned_kept(1) [OF wf rng])
    show "amount (invoices (run_calls txs s) i) = amount (invoices s i)"
      by (rule assigned_kept(2) [OF wf rng])
    show "dueDate (invoices (run_calls txs s) i) = dueDate (invoices s i)"
      by (rule assigned_kept(3) [OF wf rng])
    show "invoiceURI (invoices (run_calls txs s) i) = invoiceURI (invoices s i)"
      by (rule assigned_kept(4) [OF wf rng])
  }
  {
    fix a i t out s'
    assume "payInvoice a i t (Callback [] out) s = Inr s'"
    then show "s' = s\<lparr>invoices := (invoices s)(i := (invoices s i)\<lparr>isPaid := True, client := a\<rparr>),
                   ledgerCalls := ledgerCalls s @ [\<lparr>token = t, sender = a,
                      recipient = freelancer (invoices s i), units = amount (invoices s i)\<rparr>],
                   events := events s @ [InvoicePaid i a]\<rparr>"
      by (rule pay_no_reentry)
  }
  fix a i t cs out s'
  assume r: "payInvoice a i t (Callback cs out) s = Inr s'"
  show "invoices s' i = (invoices s i)\<lparr>isPaid := True, client := a\<rparr>"
    by (rule pay_success(1) [OF wf r])
  show "s' = (run_calls cs (callback_state a i t s))
                   \<lparr>events := events (run_calls cs (callback_state a i t s)) @ [InvoicePaid i a]\<rparr>"
    by (rule payInvoice_Inr(3) [OF r])
qed

theorem pay_frame_witness:
  "reachable (run_calls [Register 7 500 9 ''a'', Register 3 20 9 ''b''] initial_state) \<and>
   1 \<in> set (created_ids (events (run_calls [Register 7 500 9 ''a'', Register 3 20 9 ''b''] initial_state))) \<and>
   payInvoice 8 2 99 (Callback [] (Returns True))
     (run_calls [Register 7 500 9 ''a'', Register 3 20 9 ''b''] initial_state) =
   Inr ((run_calls [Register 7 500 9 ''a'', Register 3 20 9 ''b''] initial_state)
     \<lparr>invoices := (invoices (run_calls [Register 7 500 9 ''a'', Register 3 20 9 ''b''] initial_state))
        (2 := \<lparr>freelancer = 3, client = 8, amount = 20, dueDate = 9, isPaid = True, invoiceURI = ''b''\<rparr>),
      ledgerCalls := [\<lparr>token = 99, sender = 8, recipient = 3, units = 20\<rparr>],
      events := [InvoiceCreated 1 7 500, InvoiceCreated 2 3 20, InvoicePaid 2 8]\<rparr>) \<and>
   amount (invoices (run_calls [Pay 8 1 99 (Callback [] (Returns True))]
     (run_calls [Register 7 500 9 ''a'', Register 3 20 9 ''b''] initial_state)) 1) = 500"
proof -
  have h1: "reachable (run_calls [Register 7 500 9 ''a'', Register 3 20 9 ''b''] initial_state)"
    by (rule reachable_example)
  have h2: "1 \<in> set (created_ids (events (run_calls [Register 7 500 9 ''a'', Register 3 20 9 ''b''] initial_state)))"
    by (simp add: evaluate)
  have h3: "\<exists>s'. payInvoice 8 2 99 (Callback [] (Returns True))
     (run_calls [Register 7 500 9 ''a'', Register 3 20 9 ''b''] initial_state) = Inr s'"
    by (simp add: evaluate)
  have h4: "amount (invoices (run_calls [Register 7 500 9 ''a'', Register 3 20 9 ''b''] initial_state) 1) = 500"
    by (simp add: evaluate)
  have h5: "invoices (run_calls [Register 7 500 9 ''a'', Register 3 20 9 ''b''] initial_state) 2 =
      \<lparr>freelancer = 3, client = 0, amount = 20, dueDate = 9, isPaid = False, invoiceURI = ''b''\<rparr>"
    and h6: "ledgerCalls (run_calls [Register 7 500 9 ''a'', Register 3 20 9 ''b''] initial_state) = []"
    and h7: "events (run_calls [Register 7 500 9 ''a'', Register 3 20 9 ''b''] initial_state) =
       [InvoiceCreated 1 7 500, InvoiceCreated 2 3 20]"
    by (simp_all add: evaluate)
  from h3 obtain s' where r: "payInvoice 8 2 99 (Callback [] (Returns True))
     (run_calls [Register 7 500 9 ''a'', Register 3 20 9 ''b''] initial_state) = Inr s'" ..
  note fr = pay_frame [OF h1]
  have a: "amount (invoices (run_calls [Pay 8 1 99 (Callback [] (Returns True))]
     (run_calls [Register 7 500 9 ''a'', Register 3 20 9 ''b''] initial_state)) 1) = 500"
    using fr h2 h4 by (metis (no_types, lifting))
  have "s' = (run_calls [Register 7 500 9 ''a'', Register 3 20 9 ''b''] initial_state)
     \<lparr>invoices := (invoices (run_calls [Register 7 500 9 ''a'', Register 3 20 9 ''b''] initial_state))
        (2 := (invoices (run_calls [Register 7 500 9 ''a'', Register 3 20 9 ''b''] initial_state) 2)
                 \<lparr>isPaid := True, client := 8\<rparr>),
      ledgerCalls := ledgerCalls (run_calls [Register 7 500 9 ''a'', Register 3 20 9 ''b''] initial_state) @
         [\<lparr>token = 99, sender = 8,
           recipient = freelancer (invoices (run_calls [Register 7 500 9 ''a'', Register 3 20 9 ''b''] initial_state) 2),
           units = amount (invoices (run_calls [Register 7 500 9 ''a'', Register 3 20 9 ''b''] initial_state) 2)\<rparr>],
      events := events (run_calls [Register 7 500 9 ''a'', Register 3 20 9 ''b''] initial_state) @ [InvoicePaid 2 8]\<rparr>"
    using fr r by blast
  then have b: "s' = (run_calls [Register 7 500 9 ''a'', Register 3 20 9 ''b''] initial_state)
     \<lparr>invoices := (invoices (run_calls [Register 7 500 9 ''a'', Register 3 20 9 ''b''] initial_state))
        (2 := \<lparr>freelancer = 3, client = 8, amount = 20, dueDate = 9, isPaid = True, invoiceURI = ''b''\<rparr>),
      ledgerCalls := [\<lparr>token = 99, sender = 8, recipient = 3, units = 20\<rparr>],
      events := [InvoiceCreated 1 7 500, InvoiceCreated 2 3 20, InvoicePaid 2 8]\<rparr>"
    unfolding h5 h6 h7 by simp
  show ?thesis
    using h1 h2 a r b by (simp del: payInvoice.simps run_calls.simps)
qed

text \<open>
  C9. \<open>getInvoice\<close> returns the record stored at the identifier and leaves the state as
  it is; in a reachable state, for an identifier that no \<open>InvoiceCreated\<close> event of the
  log carries, that record is the zero record: addresses 0, amount and due date 0, paid
  flag false, URI empty.
\<close>

theorem getInvoice_reads:
  "getInvoice i s = (invoices s i, s) \<and>
   (reachable s \<and> i \<notin> set (created_ids (events s)) \<longrightarrow>
      fst (getInvoice i s) =
        \<lparr>freelancer = 0, client = 0, amount = 0, dueDate = 0, isPaid = False, invoiceURI = []\<rparr>)"
proof (intro conjI impI)
  show "getInvoice i s = (invoices s i, s)"
    by (simp add: getInvoice_def)
  assume h: "reachable s \<and> i \<notin> set (created_ids (events s))"
  then have "i = 0 \<or> invoiceCount s < i"
    using created_iff_assigned [of s i] by (auto simp: word_gt_0 not_le)
  then have "invoices s i = zero_invoice"
    using reachable_well_formed [of s] h unfolding well_formed_def by blast
  then show "fst (getInvoice i s) =
        \<lparr>freelancer = 0, client = 0, amount = 0, dueDate = 0, isPaid = False, invoiceURI = []\<rparr>"
    by (simp add: getInvoice_def zero_invoice_def)
qed

theorem getInvoice_reads_witness:
  "reachable (run_calls [Register 7 500 9 ''a''] initial_state) \<and>
   5 \<notin> set (created_ids (events (run_calls [Register 7 500 9 ''a''] initial_state))) \<and>
   fst (getInvoice 5 (run_calls [Register 7 500 9 ''a''] initial_state)) =
     \<lparr>freelancer = 0, client = 0, amount = 0, dueDate = 0, isPaid = False, invoiceURI = []\<rparr> \<and>
   fst (getInvoice 1 (run_calls [Register 7 500 9 ''a''] initial_state)) =
     \<lparr>freelancer = 7, client = 0, amount = 500, dueDate = 9, isPaid = False, invoiceURI = ''a''\<rparr>"
proof -
  have h1: "reachable (run_calls [Register 7 500 9 ''a''] initial_state)"
    by (rule reachable_example)
  have h2: "5 \<notin> set (created_ids (events (run_calls [Register 7 500 9 ''a''] initial_state)))"
    by (simp add: evaluate)
  have h3: "invoices (run_calls [Register 7 500 9 ''a''] initial_state) 1 =
     \<lparr>freelancer = 7, client = 0, amount = 500, dueDate = 9, isPaid = False, invoiceURI = ''a''\<rparr>"
    by (simp add: evaluate)
  have a: "fst (getInvoice 5 (run_calls [Register 7 500 9 ''a''] initial_state)) =
     \<lparr>freelancer = 0, client = 0, amount = 0, dueDate = 0, isPaid = False, invoiceURI = []\<rparr>"
    using h1 h2 getInvoice_reads [of 5 "run_calls [Register 7 500 9 ''a''] initial_state"]
    by blast
  have b: "fst (getInvoice 1 (run_calls [Register 7 500 9 ''a''] initial_state)) =
     \<lparr>freelancer = 7, client = 0, amount = 500, dueDate = 9, isPaid = False, invoiceURI = ''a''\<rparr>"
    using h3 getInvoice_reads [of 1 "run_calls [Register 7 500 9 ''a''] initial_state"]
    by (simp del: run_calls.simps)
  show ?thesis
    using h1 h2 a b by blast
qed

text \<open>
  C10. In a reachable state, on an invoice that is unpaid and has a nonzero amount, and
  for every address \<open>t\<close> given as the ledger: the \<open>transferFrom\<close> call is made on \<open>t\<close>;
  \<open>payInvoice\<close> returns exactly when that call returns true; when it returns, the
  invoice is paid with the caller as client, \<open>InvoicePaid(id, caller)\<close> is the last
  event, and the ledger call recorded for this payment names \<open>t\<close>; and the result of
  the call, the record of ledger calls set aside, is the same for every other address
  \<open>t'\<close> whose \<open>transferFrom\<close> behaves the same way.
\<close>

theorem ledger_chosen_by_caller:
  assumes "reachable s" and "\<not> isPaid (invoices s i)" and "0 < amount (invoices s i)"
  shows "ledgerCalls (callback_state a i t s) =
           ledgerCalls s @ [\<lparr>token = t, sender = a, recipient = freelancer (invoices s i),
                              units = amount (invoices s i)\<rparr>] \<and>
         ((\<exists>s'. payInvoice a i t (Callback cs out) s = Inr s') \<longleftrightarrow> out = Returns True) \<and>
         (\<forall>s'. payInvoice a i t (Callback cs out) s = Inr s' \<longrightarrow>
            isPaid (invoices s' i) \<and> client (invoices s' i) = a \<and>
            last (events s') = InvoicePaid i a \<and>
            token (ledgerCalls s' ! length (ledgerCalls s)) = t) \<and>
         (\<forall>t'. map_sum id forget_calls (payInvoice a i t' (Callback cs out) s) =
               map_sum id forget_calls (payInvoice a i t (Callback cs out) s))"
proof (intro conjI allI impI)
  note wf = reachable_well_formed [OF assms(1)]
  have chk: "pay_checks i s = None"
    using assms(2,3) by (simp add: pay_checks_None)
  show "ledgerCalls (callback_state a i t s) =
           ledgerCalls s @ [\<lparr>token = t, sender = a, recipient = freelancer (invoices s i),
                              units = amount (invoices s i)\<rparr>]"
    by (rule callback_state_simps(4))
  show "(\<exists>s'. payInvoice a i t (Callback cs out) s = Inr s') \<longleftrightarrow> out = Returns True"
    using chk by (auto simp: Let_def split: outcome.splits)
  {
    fix s'
    assume r: "payInvoice a i t (Callback cs out) s = Inr s'"
    note ok = pay_success [OF wf r]
    show "isPaid (invoices s' i)" and "client (invoices s' i) = a"
      using ok(1) by simp_all
    show "last (events s') = InvoicePaid i a"
      using ok(3) by auto
    obtain zs where "ledgerCalls s' = (ledgerCalls s @ [\<lparr>token = t, sender = a,
        recipient = freelancer (invoices s i), units = amount (invoices s i)\<rparr>]) @ zs"
      using ok(2) unfolding prefix_def by blast
    then show "token (ledgerCalls s' ! length (ledgerCalls s)) = t"
      by (simp add: nth_append)
  }
  fix t'
  show "map_sum id forget_calls (payInvoice a i t' (Callback cs out) s) =
        map_sum id forget_calls (payInvoice a i t (Callback cs out) s)"
    by (rule token_irrelevant(1)) simp
qed

theorem ledger_chosen_by_caller_witness:
  "reachable (run_calls [Register 7 500 9 ''a''] initial_state) \<and>
   \<not> isPaid (invoices (run_calls [Register 7 500 9 ''a''] initial_state) 1) \<and>
   0 < amount (invoices (run_calls [Register 7 500 9 ''a''] initial_state) 1) \<and>
   (\<exists>s'. payInvoice 8 1 99 (Callback [] (Returns True))
            (run_calls [Register 7 500 9 ''a''] initial_state) = Inr s' \<and>
          isPaid (invoices s' 1) \<and> token (ledgerCalls s' ! 0) = 99) \<and>
   (\<exists>s'. payInvoice 8 1 42 (Callback [] (Returns True))
            (run_calls [Register 7 500 9 ''a''] initial_state) = Inr s' \<and>
          isPaid (invoices s' 1) \<and> token (ledgerCalls s' ! 0) = 42)"
proof -
  have h1: "reachable (run_calls [Register 7 500 9 ''a''] initial_state)"
    by (rule reachable_example)
  have h2: "\<not> isPaid (invoices (run_calls [Register 7 500 9 ''a''] initial_state) 1)"
    by (simp add: evaluate)
  have h3: "0 < amount (invoices (run_calls [Register 7 500 9 ''a''] initial_state) 1)"
    by (simp add: evaluate)
  have h4: "length (ledgerCalls (run_calls [Register 7 500 9 ''a''] initial_state)) = 0"
    by (simp add: evaluate)
  show ?thesis
    using h1 h2 h3
      ledger_chosen_by_caller [OF h1 h2 h3, of 8 99 "[]" "Returns True"]
      ledger_chosen_by_caller [OF h1 h2 h3, of 8 42 "[]" "Returns True"]
    unfolding h4
    by (metis (no_types, lifting))
qed

end
